theory Spec2Isabelle
  imports Main "HOL-Library.Word" "HOL-Library.Monad_Syntax"
begin

unbundle bit_operations_syntax

section \<open>The PVD scalar types\<close>

text \<open>
  Modelled from the spec: the enumeration \<^verbatim>\<open>epics::pvData::ScalarType\<close> and the trait
  \<^verbatim>\<open>ScalarTypeID<T>\<close> are declared in \<^verbatim>\<open>pv/pvIntrospect.h\<close>, which is not among the
  sources; \<^verbatim>\<open>anyscalar.h\<close> only uses them. The fixed set of scalar types of the spec
  (boolean, the signed and unsigned integers of four widths, the two floating-point types
  and the string) is taken with the names of the PVD type system. Of these the header
  names \<^verbatim>\<open>pvString\<close> only. The tag value \<^verbatim>\<open>(ScalarType)-1\<close> ("nil") is \<open>None\<close> in a
  \<open>ScalarType option\<close>.
\<close>

datatype ScalarType =
  pvBoolean | pvByte | pvShort | pvInt | pvLong
| pvUByte | pvUShort | pvUInt | pvULong
| pvFloat | pvDouble | pvString

text \<open>
  The C++ types a template argument \<^verbatim>\<open>T\<close> of \<^verbatim>\<open>AnyScalar\<close> may be: the twelve
  scalar types, \<^verbatim>\<open>char*\<close> and \<^verbatim>\<open>const char*\<close>, each possibly with a top-level
  \<^verbatim>\<open>const\<close>, which \<^verbatim>\<open>meta::strip_const\<close> removes.
\<close>

datatype base_type =
  boolean_t | int8_t | int16_t | int32_t | int64_t
| uint8_t | uint16_t | uint32_t | uint64_t
| float_t | double_t | string_t | char_ptr_t | const_char_ptr_t

datatype cxx_type = Plain base_type | Const base_type

fun strip_const :: "cxx_type \<Rightarrow> base_type" where
  "strip_const (Plain T) = T"
| "strip_const (Const T) = T"

text \<open>\<^verbatim>\<open>detail::any_storage_type\<close>: the argument type mapped to the storage type.\<close>

fun any_storage_type :: "base_type \<Rightarrow> base_type" where
  "any_storage_type char_ptr_t = string_t"
| "any_storage_type const_char_ptr_t = string_t"
| "any_storage_type T = T"

text \<open>
  \<^verbatim>\<open>ScalarTypeID<T>::value\<close>. There is no specialisation for the character pointers:
  an instantiation that asks for one does not compile (\<open>None\<close>).
\<close>

fun ScalarTypeID :: "base_type \<Rightarrow> ScalarType option" where
  "ScalarTypeID boolean_t = Some pvBoolean"
| "ScalarTypeID int8_t = Some pvByte"
| "ScalarTypeID int16_t = Some pvShort"
| "ScalarTypeID int32_t = Some pvInt"
| "ScalarTypeID int64_t = Some pvLong"
| "ScalarTypeID uint8_t = Some pvUByte"
| "ScalarTypeID uint16_t = Some pvUShort"
| "ScalarTypeID uint32_t = Some pvUInt"
| "ScalarTypeID uint64_t = Some pvULong"
| "ScalarTypeID float_t = Some pvFloat"
| "ScalarTypeID double_t = Some pvDouble"
| "ScalarTypeID string_t = Some pvString"
| "ScalarTypeID _ = None"

text \<open>
  Values. The fixed-size scalars are bit patterns of their width (a \<^verbatim>\<open>float\<close> and a
  \<^verbatim>\<open>double\<close> are kept as their 32 and 64 bits: the header only stores and copies
  them). A \<^verbatim>\<open>char*\<close> argument is represented by the characters it points to.
\<close>

datatype scalar =
  VBoolean bool | VByte "8 word" | VShort "16 word" | VInt "32 word" | VLong "64 word"
| VUByte "8 word" | VUShort "16 word" | VUInt "32 word" | VULong "64 word"
| VFloat "32 word" | VDouble "64 word"

datatype pvalue = Num scalar | Str string

fun scalar_type :: "scalar \<Rightarrow> ScalarType" where
  "scalar_type (VBoolean _) = pvBoolean"
| "scalar_type (VByte _) = pvByte"
| "scalar_type (VShort _) = pvShort"
| "scalar_type (VInt _) = pvInt"
| "scalar_type (VLong _) = pvLong"
| "scalar_type (VUByte _) = pvUByte"
| "scalar_type (VUShort _) = pvUShort"
| "scalar_type (VUInt _) = pvUInt"
| "scalar_type (VULong _) = pvULong"
| "scalar_type (VFloat _) = pvFloat"
| "scalar_type (VDouble _) = pvDouble"

fun value_type :: "pvalue \<Rightarrow> ScalarType" where
  "value_type (Num s) = scalar_type s"
| "value_type (Str _) = pvString"

section \<open>Storage\<close>

text \<open>
  A \<^verbatim>\<open>std::string\<close> owns a character buffer on the free store. The free store is a
  list of cells indexed by address: \<open>Some s\<close> is a live buffer holding \<open>s\<close>, \<open>None\<close>
  a released one. Allocation appends a cell, so a new address is never one in use.
\<close>

type_synonym addr = nat
type_synonym heap = "string option list"

definition lookup :: "heap \<Rightarrow> addr \<Rightarrow> string option" where
  "lookup h p = (if p < length h then h ! p else None)"

definition live :: "heap \<Rightarrow> addr set" where
  "live h = set (filter (\<lambda>p. h ! p \<noteq> None) [0..<length h])"

text \<open>
  What \<^verbatim>\<open>_wrap.blob\<close> holds: nothing meaningful, the object representation of a
  fixed-size scalar, or a \<^verbatim>\<open>std::string\<close> object (placement-constructed there) whose
  buffer is at the given address. \<^verbatim>\<open>memcpy\<close> of the blob copies this content as it
  is, so a \<^verbatim>\<open>memcpy\<close> of a string object would copy the buffer address.
\<close>

datatype blob = Indeterminate | Bytes scalar | StringObj addr

record AnyScalar =
  stype :: "ScalarType option"
  wrap :: blob

text \<open>
  \<^verbatim>\<open>_as<T>()\<close> read as a value: \<^verbatim>\<open>*reinterpret_cast<const T*>(_wrap.blob)\<close>. It is
  defined only when the storage holds a live object of that type.
\<close>

fun deref :: "heap \<Rightarrow> ScalarType \<Rightarrow> blob \<Rightarrow> pvalue option" where
  "deref h T (Bytes s) = (if scalar_type s = T then Some (Num s) else None)"
| "deref h T (StringObj p) = (if T = pvString then map_option Str (lookup h p) else None)"
| "deref h T Indeterminate = None"

subsection \<open>The operations of \<^verbatim>\<open>std::string\<close> the header uses\<close>

text \<open>
  Each returns \<open>None\<close> where the C++ program has undefined behaviour: a member function
  called on storage that holds no live string.
\<close>

definition string_ctor :: "heap \<Rightarrow> string \<Rightarrow> blob \<times> heap" where
  \<comment> \<open>\<^verbatim>\<open>new (blob) std::string(s)\<close>; \<^verbatim>\<open>std::string()\<close> is \<open>string_ctor h []\<close>\<close>
  "string_ctor h s = (StringObj (length h), h @ [Some s])"

definition string_copy_ctor :: "heap \<Rightarrow> blob \<Rightarrow> (blob \<times> heap) option" where
  \<comment> \<open>\<^verbatim>\<open>new (blob) std::string(src)\<close>\<close>
  "string_copy_ctor h src =
     (case deref h pvString src of
        Some (Str s) \<Rightarrow> Some (string_ctor h s)
      | _ \<Rightarrow> None)"

definition string_dtor :: "heap \<Rightarrow> blob \<Rightarrow> (blob \<times> heap) option" where
  \<comment> \<open>\<^verbatim>\<open>x.~string()\<close>: the buffer is released, the storage holds no object any more\<close>
  "string_dtor h x =
     (case x of
        StringObj p \<Rightarrow>
          (if lookup h p \<noteq> None then Some (Indeterminate, h[p := None]) else None)
      | _ \<Rightarrow> None)"

definition string_swap :: "heap \<Rightarrow> blob \<Rightarrow> blob \<Rightarrow> (blob \<times> blob) option" where
  \<comment> \<open>\<^verbatim>\<open>x.swap(y)\<close>: the two objects exchange their buffers\<close>
  "string_swap h x y =
     (case (x, y) of
        (StringObj p, StringObj q) \<Rightarrow>
          (if lookup h p \<noteq> None \<and> lookup h q \<noteq> None
           then Some (StringObj q, StringObj p) else None)
      | _ \<Rightarrow> None)"

definition string_move_assign :: "heap \<Rightarrow> blob \<Rightarrow> blob \<Rightarrow> (blob \<times> blob \<times> heap) option" where
  \<comment> \<open>\<^verbatim>\<open>dst = std::move(src)\<close>: \<open>dst\<close> takes the buffer of \<open>src\<close>, which is left valid
      and empty\<close>
  "string_move_assign h dst src =
     (case (dst, src) of
        (StringObj p, StringObj q) \<Rightarrow>
          (if lookup h p \<noteq> None \<and> lookup h q \<noteq> None
           then Some (StringObj q, StringObj p, h[p := Some []]) else None)
      | _ \<Rightarrow> None)"

definition string_assign :: "heap \<Rightarrow> blob \<Rightarrow> string \<Rightarrow> heap option" where
  \<comment> \<open>\<^verbatim>\<open>x = s\<close> through a \<^verbatim>\<open>std::string&\<close>\<close>
  "string_assign h x s =
     (case x of
        StringObj p \<Rightarrow> (if lookup h p \<noteq> None then Some (h[p := Some s]) else None)
      | _ \<Rightarrow> None)"

section \<open>\<^verbatim>\<open>class AnyScalar\<close>\<close>

datatype fault =
  bad_cast \<comment> \<open>\<^verbatim>\<open>AnyScalar::bad_cast\<close>\<close>
| runtime_error string \<comment> \<open>an exception of the conversion library\<close>
| ill_formed \<comment> \<open>the instantiation does not compile\<close>

definition AnyScalar_default :: AnyScalar where
  \<comment> \<open>\<^verbatim>\<open>AnyScalar() : _stype((ScalarType)-1) {}\<close>\<close>
  "AnyScalar_default = \<lparr>stype = None, wrap = Indeterminate\<rparr>"

definition AnyScalar_ctor :: "heap \<Rightarrow> pvalue \<Rightarrow> AnyScalar \<times> heap" where
  \<comment> \<open>\<^verbatim>\<open>explicit AnyScalar(T v)\<close>\<close>
  "AnyScalar_ctor h v =
     (case v of
        Num s \<Rightarrow> (\<lparr>stype = Some (scalar_type s), wrap = Bytes s\<rparr>, h)
      | Str s \<Rightarrow>
          (let (b, h') = string_ctor h s in (\<lparr>stype = Some pvString, wrap = b\<rparr>, h')))"

definition copy_ctor :: "heap \<Rightarrow> AnyScalar \<Rightarrow> (AnyScalar \<times> heap) option" where
  \<comment> \<open>\<^verbatim>\<open>AnyScalar(const AnyScalar& o)\<close>\<close>
  "copy_ctor h other =
     (if stype other = Some pvString then do {
        (b, h') \<leftarrow> string_copy_ctor h (wrap other);
        Some (\<lparr>stype = stype other, wrap = b\<rparr>, h')
      } else Some (\<lparr>stype = stype other, wrap = wrap other\<rparr>, h))"

definition move_ctor :: "heap \<Rightarrow> AnyScalar \<Rightarrow> (AnyScalar \<times> AnyScalar \<times> heap) option" where
  \<comment> \<open>\<^verbatim>\<open>AnyScalar(AnyScalar&& o)\<close>: returns the new object and the moved-from one.
      The storage of the new object is not initialised when the body runs.\<close>
  "move_ctor h other =
     (if stype other = Some pvString then do {
        (b, ob, h') \<leftarrow> string_move_assign h Indeterminate (wrap other);
        Some (\<lparr>stype = stype other, wrap = b\<rparr>, \<lparr>stype = None, wrap = ob\<rparr>, h')
      } else Some (\<lparr>stype = stype other, wrap = wrap other\<rparr>,
                   \<lparr>stype = None, wrap = wrap other\<rparr>, h))"

definition dtor :: "heap \<Rightarrow> AnyScalar \<Rightarrow> heap option" where
  \<comment> \<open>\<^verbatim>\<open>~AnyScalar()\<close>\<close>
  "dtor h a =
     (if stype a = Some pvString then map_option snd (string_dtor h (wrap a)) else Some h)"

text \<open>
  \<^verbatim>\<open>void swap(AnyScalar& o)\<close>, on two distinct objects: the nested switch on the two
  tags, then \<^verbatim>\<open>std::swap(_stype, o._stype)\<close>. \<open>tb\<close> and \<open>ob\<close> are the storage of
  \<^verbatim>\<open>*this\<close> and of \<^verbatim>\<open>o\<close>; the local \<^verbatim>\<open>temp\<close> is destroyed at the end of its block.
\<close>

definition swap :: "heap \<Rightarrow> AnyScalar \<Rightarrow> AnyScalar \<Rightarrow> (AnyScalar \<times> AnyScalar \<times> heap) option" where
  "swap h this other = do {
     (tb, ob, h') \<leftarrow>
       (if stype this = None then
          (if stype other = None then
             \<comment> \<open>nil <-> nil\<close>
             Some (wrap this, wrap other, h)
           else if stype other = Some pvString then do {
             \<comment> \<open>nil <-> string\<close>
             let (tb, h1) = string_ctor h [];
             (tb, ob) \<leftarrow> string_swap h1 tb (wrap other);
             (ob, h2) \<leftarrow> string_dtor h1 ob;
             Some (tb, ob, h2)
           } else
             \<comment> \<open>nil <-> non-string: \<^verbatim>\<open>memcpy(_wrap.blob, o._wrap.blob, ...)\<close>\<close>
             Some (wrap other, wrap other, h))
        else if stype this = Some pvString then
          (if stype other = None then do {
             \<comment> \<open>string <-> nil\<close>
             let (ob, h1) = string_ctor h [];
             (tb, ob) \<leftarrow> string_swap h1 (wrap this) ob;
             (tb, h2) \<leftarrow> string_dtor h1 tb;
             Some (tb, ob, h2)
           } else if stype other = Some pvString then do {
             \<comment> \<open>string <-> string\<close>
             (tb, ob) \<leftarrow> string_swap h (wrap this) (wrap other);
             Some (tb, ob, h)
           } else do {
             \<comment> \<open>string <-> non-string\<close>
             let (temp, h1) = string_ctor h [];
             (temp, tb) \<leftarrow> string_swap h1 temp (wrap this);
             (tb, h2) \<leftarrow> string_dtor h1 tb;
             let tb = wrap other;
             let (ob, h3) = string_ctor h2 [];
             (temp, ob) \<leftarrow> string_swap h3 temp ob;
             (temp, h4) \<leftarrow> string_dtor h3 temp;
             Some (tb, ob, h4)
           })
        else
          (if stype other = None then
             \<comment> \<open>non-string <-> nil: \<^verbatim>\<open>memcpy(o._wrap.blob, _wrap.blob, ...)\<close>\<close>
             Some (wrap this, wrap this, h)
           else if stype other = Some pvString then do {
             \<comment> \<open>non-string <-> string\<close>
             let (temp, h1) = string_ctor h [];
             (temp, ob) \<leftarrow> string_swap h1 temp (wrap other);
             (ob, h2) \<leftarrow> string_dtor h1 ob;
             let ob = wrap this;
             let (tb, h3) = string_ctor h2 [];
             (temp, tb) \<leftarrow> string_swap h3 temp tb;
             (temp, h4) \<leftarrow> string_dtor h3 temp;
             Some (tb, ob, h4)
           } else
             \<comment> \<open>non-string <-> non-string: \<^verbatim>\<open>std::swap(o._wrap.blob, _wrap.blob)\<close>\<close>
             Some (wrap other, wrap this, h)));
     \<comment> \<open>\<^verbatim>\<open>std::swap(_stype, o._stype)\<close>\<close>
     Some (\<lparr>stype = stype other, wrap = tb\<rparr>, \<lparr>stype = stype this, wrap = ob\<rparr>, h')
   }"

definition assign :: "heap \<Rightarrow> AnyScalar \<Rightarrow> AnyScalar \<Rightarrow> (AnyScalar \<times> heap) option" where
  \<comment> \<open>\<^verbatim>\<open>operator=(const AnyScalar& o) { AnyScalar(o).swap(*this); return *this; }\<close>;
      the temporary is destroyed at the end of the statement\<close>
  "assign h this other = do {
     (tmp, h1) \<leftarrow> copy_ctor h other;
     (tmp, this, h2) \<leftarrow> swap h1 tmp this;
     h3 \<leftarrow> dtor h2 tmp;
     Some (this, h3)
   }"

definition assign_value :: "heap \<Rightarrow> AnyScalar \<Rightarrow> pvalue \<Rightarrow> (AnyScalar \<times> heap) option" where
  \<comment> \<open>\<^verbatim>\<open>operator=(T v) { AnyScalar(v).swap(*this); return *this; }\<close>\<close>
  "assign_value h this v = do {
     let (tmp, h1) = AnyScalar_ctor h v;
     (tmp, this, h2) \<leftarrow> swap h1 tmp this;
     h3 \<leftarrow> dtor h2 tmp;
     Some (this, h3)
   }"

definition empty :: "AnyScalar \<Rightarrow> bool" where
  "empty a = (stype a = None)"

definition operator_bool :: "AnyScalar \<Rightarrow> bool" where
  "operator_bool a = (\<not> empty a)"

text \<open>
  \<^verbatim>\<open>ref<T>()\<close> returns \<^verbatim>\<open>_as<TT>()\<close>, the storage of the object seen as a \<^verbatim>\<open>TT\<close>:
  the model returns that storage. \<open>store\<close> is an assignment through such a
  reference, of a value of the type of the object that lives there.
\<close>

definition ref :: "cxx_type \<Rightarrow> AnyScalar \<Rightarrow> fault + blob" where
  "ref T a =
     (case ScalarTypeID (any_storage_type (strip_const T)) of
        None \<Rightarrow> Inl ill_formed
      | Some t \<Rightarrow> if stype a \<noteq> Some t then Inl bad_cast else Inr (wrap a))"

definition store :: "heap \<Rightarrow> blob \<Rightarrow> pvalue \<Rightarrow> (blob \<times> heap) option" where
  "store h b w =
     (case w of
        Num s' \<Rightarrow>
          (case b of
             Bytes s \<Rightarrow> if scalar_type s = scalar_type s' then Some (Bytes s', h) else None
           | _ \<Rightarrow> None)
      | Str s \<Rightarrow> map_option (Pair b) (string_assign h b s))"

text \<open>
  \<^verbatim>\<open>as<T>()\<close>. \<^verbatim>\<open>epics::pvData::castUnsafeV\<close> (\<^verbatim>\<open>pv/typeCast.h\<close>) is a parameter:
  given the destination tag, the source tag and the source storage it returns the converted
  value or the message of the exception it throws.
\<close>

definition as ::
  "(ScalarType \<Rightarrow> ScalarType \<Rightarrow> heap \<Rightarrow> blob \<Rightarrow> string + pvalue) \<Rightarrow>
   heap \<Rightarrow> cxx_type \<Rightarrow> AnyScalar \<Rightarrow> fault + pvalue" where
  "as castUnsafeV h T a =
     (case ScalarTypeID (strip_const T) of
        None \<Rightarrow> Inl ill_formed
      | Some to \<Rightarrow>
          (case stype a of
             None \<Rightarrow> Inl bad_cast
           | Some from \<Rightarrow>
               (case castUnsafeV to from h (wrap a) of
                  Inl msg \<Rightarrow> Inl (runtime_error msg)
                | Inr ret \<Rightarrow> Inr ret)))"

text \<open>
  A conversion table with the same-type entries only, which copy the source (every other
  conversion raises): the least a \<^verbatim>\<open>castUnsafeV\<close> does, used to run \<^verbatim>\<open>as<T>()\<close> on
  examples.
\<close>

definition same_type_only ::
  "ScalarType \<Rightarrow> ScalarType \<Rightarrow> heap \<Rightarrow> blob \<Rightarrow> string + pvalue" where
  "same_type_only to from h src =
     (case deref h from src of
        None \<Rightarrow> Inl ''castUnsafeV: invalid source''
      | Some v \<Rightarrow> if to = from then Inr v else Inl ''castUnsafeV: Conversion not supported'')"

subsection \<open>Well-formed objects\<close>

text \<open>
  The storage holds a string object exactly when the tag is \<open>pvString\<close>, and otherwise
  a scalar of the tagged type (anything but a string when the tag is nil).
\<close>

definition valid :: "heap \<Rightarrow> AnyScalar \<Rightarrow> bool" where
  "valid h a =
     (case stype a of
        None \<Rightarrow> (case wrap a of StringObj _ \<Rightarrow> False | _ \<Rightarrow> True)
      | Some t \<Rightarrow> deref h t (wrap a) \<noteq> None)"

definition view :: "heap \<Rightarrow> AnyScalar \<Rightarrow> pvalue option" where
  \<comment> \<open>the value an object holds; \<open>None\<close> for nil\<close>
  "view h a = (case stype a of None \<Rightarrow> None | Some t \<Rightarrow> deref h t (wrap a))"

definition owns :: "AnyScalar \<Rightarrow> addr set" where
  \<comment> \<open>the buffer the destructor of the object will release\<close>
  "owns a =
     (if stype a = Some pvString then (case wrap a of StringObj p \<Rightarrow> {p} | _ \<Rightarrow> {}) else {})"

section \<open>Timestamp options\<close>

text \<open>
  Modelled from the spec: the time stamp of the published structure, with the fields the
  option \<^verbatim>\<open>Q:time:tag\<close> writes (\<^verbatim>\<open>timeStamp.nanoseconds\<close> and \<^verbatim>\<open>timeStamp.userTag\<close>),
  and the error of a configuration that is rejected.
\<close>

datatype config_error = ConfigurationError

record timeStamp =
  secondsPastEpoch :: "64 word"
  nanoseconds :: "32 word"
  userTag :: "32 word"

text \<open>
  Modelled from the spec: the code that applies the \<^verbatim>\<open>nsec:lsb:#\<close> option is not
  among the sources (only its description in \<^verbatim>\<open>qsrvpage.h\<close> is). The low \<open>k\<close> bits
  of the nanoseconds go to the tag field and are cleared in the nanoseconds field; nothing
  is shifted; \<open>k = 0\<close> changes nothing; \<open>k > 32\<close> is rejected.
\<close>

definition nsec_lsb :: "nat \<Rightarrow> timeStamp \<Rightarrow> config_error + timeStamp" where
  "nsec_lsb k ts =
     (if 32 < k then Inl ConfigurationError
      else if k = 0 then Inr ts
      else Inr (ts\<lparr>nanoseconds := nanoseconds ts AND NOT (mask k),
                  userTag := nanoseconds ts AND mask k\<rparr>))"

section \<open>Alarm propagation through a link\<close>

text \<open>
  Modelled from the spec: the code that reads a value through a PVA link and propagates
  its alarm is not among the sources; \<^verbatim>\<open>qsrvpage.h\<close> describes the link option
  \<^verbatim>\<open>sevr\<close> (and marks it as not yet implemented). The alarm severities are those of the
  record database, from best to worst; \<open>INVALID\<close> is the worst one defined. The option
  is \<^verbatim>\<open>false\<close>, \<^verbatim>\<open>true\<close> or \<^verbatim>\<open>"MSI"\<close>.
\<close>

datatype severity = NO_ALARM | MINOR | MAJOR | INVALID

fun severity_rank :: "severity \<Rightarrow> nat" where
  "severity_rank NO_ALARM = 0"
| "severity_rank MINOR = 1"
| "severity_rank MAJOR = 2"
| "severity_rank INVALID = 3"

datatype sevr_mode = sevr_false | sevr_true | sevr_MSI

text \<open>
  Modelled from the spec: the maximize rule raises the local severity to the remote one
  when the remote one is worse, and never lowers it.
\<close>

definition maximize :: "severity \<Rightarrow> severity \<Rightarrow> severity" where
  "maximize local remote =
     (if severity_rank local < severity_rank remote then remote else local)"

text \<open>
  Modelled from the spec: with \<^verbatim>\<open>true\<close> the remote severity is combined with the local
  one by the maximize rule; with \<^verbatim>\<open>"MSI"\<close> the remote severity is applied only when it
  is \<open>INVALID\<close>, and the local one is left untouched otherwise; with \<^verbatim>\<open>false\<close> the
  local severity is left untouched.
\<close>

definition propagate_sevr :: "sevr_mode \<Rightarrow> severity \<Rightarrow> severity \<Rightarrow> severity" where
  "propagate_sevr mode local remote =
     (case mode of
        sevr_false \<Rightarrow> local
      | sevr_true \<Rightarrow> maximize local remote
      | sevr_MSI \<Rightarrow> if remote = INVALID then maximize local remote else local)"

section \<open>Facts about the free store\<close>

lemma lookup_append_cell:
  "lookup (h @ [x]) p = (if p = length h then x else lookup h p)"
  by (simp add: lookup_def nth_append)

lemma lookup_update:
  "lookup (h[p := x]) q = (if q = p \<and> p < length h then x else lookup h q)"
  by (simp add: lookup_def)

lemma lookup_fresh: "lookup h (length h) = None"
  by (simp add: lookup_def)

lemma lookup_Some_less: "lookup h p = Some s \<Longrightarrow> p < length h"
  by (simp add: lookup_def split: if_splits)

lemma lookup_released: "lookup (h @ [None]) = lookup h"
  by (rule ext) (simp add: lookup_append_cell lookup_fresh)

lemma lookup_released2: "lookup (h @ [None, None]) = lookup h"
  using lookup_released [of "h @ [None]"] by (simp add: lookup_released)

lemma lookup_append_cell2:
  "lookup (h @ [x, y]) p =
     (if p = length h then x else if p = Suc (length h) then y else lookup h p)"
  by (auto simp add: lookup_def nth_append)

section \<open>Swap, case by case\<close>

lemma scalar_type_not_string: "scalar_type s \<noteq> pvString"
  by (cases s) simp_all

lemma swap_nil_string:
  assumes "stype a = None" "stype b = Some pvString" "wrap b = StringObj p" "lookup h p = Some s"
  shows "swap h a b = Some (\<lparr>stype = Some pvString, wrap = StringObj p\<rparr>,
            \<lparr>stype = None, wrap = Indeterminate\<rparr>, h @ [None])"
  using assms
  by (simp add: swap_def string_ctor_def string_swap_def string_dtor_def
          lookup_append_cell lookup_fresh)

lemma swap_string_nil:
  assumes "stype a = Some pvString" "wrap a = StringObj p" "lookup h p = Some s" "stype b = None"
  shows "swap h a b = Some (\<lparr>stype = None, wrap = Indeterminate\<rparr>,
            \<lparr>stype = Some pvString, wrap = StringObj p\<rparr>, h @ [None])"
  using assms
  by (simp add: swap_def string_ctor_def string_swap_def string_dtor_def
          lookup_append_cell lookup_fresh)

lemma swap_string_string:
  assumes "stype a = Some pvString" "wrap a = StringObj p" "lookup h p = Some s"
    "stype b = Some pvString" "wrap b = StringObj q" "lookup h q = Some t"
  shows "swap h a b = Some (\<lparr>stype = Some pvString, wrap = StringObj q\<rparr>,
            \<lparr>stype = Some pvString, wrap = StringObj p\<rparr>, h)"
  using assms
  by (simp add: swap_def string_swap_def)

lemma swap_string_scalar:
  assumes "stype a = Some pvString" "wrap a = StringObj p" "lookup h p = Some s"
    "stype b = Some (scalar_type t)" "wrap b = Bytes t"
  shows "swap h a b = Some (\<lparr>stype = Some (scalar_type t), wrap = Bytes t\<rparr>,
            \<lparr>stype = Some pvString, wrap = StringObj p\<rparr>, h @ [None, None])"
proof -
  from assms(3) have "p < length h" by (rule lookup_Some_less)
  with assms show ?thesis
    by (simp add: swap_def string_ctor_def string_swap_def string_dtor_def
          lookup_append_cell lookup_append_cell2 list_update_append scalar_type_not_string)
qed

lemma swap_nil_nil:
  assumes "stype a = None" "stype b = None"
  shows "swap h a b = Some (\<lparr>stype = None, wrap = wrap a\<rparr>, \<lparr>stype = None, wrap = wrap b\<rparr>, h)"
  using assms by (simp add: swap_def)

lemma swap_nil_scalar:
  assumes "stype a = None" "stype b = Some (scalar_type t)"
  shows "swap h a b = Some (\<lparr>stype = Some (scalar_type t), wrap = wrap b\<rparr>,
            \<lparr>stype = None, wrap = wrap b\<rparr>, h)"
  using assms by (simp add: swap_def scalar_type_not_string)

lemma swap_scalar_nil:
  assumes "stype a = Some (scalar_type s)" "stype b = None"
  shows "swap h a b = Some (\<lparr>stype = None, wrap = wrap a\<rparr>,
            \<lparr>stype = Some (scalar_type s), wrap = wrap a\<rparr>, h)"
  using assms by (simp add: swap_def scalar_type_not_string)

lemma swap_scalar_scalar:
  assumes "stype a = Some (scalar_type s)" "stype b = Some (scalar_type t)"
  shows "swap h a b = Some (\<lparr>stype = Some (scalar_type t), wrap = wrap b\<rparr>,
            \<lparr>stype = Some (scalar_type s), wrap = wrap a\<rparr>, h)"
  using assms by (simp add: swap_def scalar_type_not_string)

lemma swap_scalar_string:
  assumes "stype a = Some (scalar_type s)" "wrap a = Bytes s"
    "stype b = Some pvString" "wrap b = StringObj q" "lookup h q = Some t"
  shows "swap h a b = Some (\<lparr>stype = Some pvString, wrap = StringObj q\<rparr>,
            \<lparr>stype = Some (scalar_type s), wrap = Bytes s\<rparr>, h @ [None, None])"
proof -
  from assms(5) have "q < length h" by (rule lookup_Some_less)
  with assms show ?thesis
    by (simp add: swap_def string_ctor_def string_swap_def string_dtor_def
          lookup_append_cell lookup_append_cell2 list_update_append scalar_type_not_string)
qed

section \<open>Well-formed objects and the free store\<close>

lemma live_iff: "p \<in> live h \<longleftrightarrow> lookup h p \<noteq> None"
  by (auto simp add: live_def lookup_def)

lemma deref_cong_lookup:
  assumes "lookup h' = lookup h"
  shows "deref h' t b = deref h t b"
  using assms by (cases b) simp_all

lemma valid_cong_lookup:
  assumes "lookup h' = lookup h"
  shows "valid h' a = valid h a"
  unfolding valid_def deref_cong_lookup [OF assms] ..

lemma view_cong_lookup:
  assumes "lookup h' = lookup h"
  shows "view h' a = view h a"
  unfolding view_def deref_cong_lookup [OF assms] ..

lemma live_cong_lookup: "lookup h' = lookup h \<Longrightarrow> live h' = live h"
  by (auto simp add: live_iff)

lemma valid_cases:
  assumes "valid h a"
  obtains (nil) "stype a = None" "\<And>p. wrap a \<noteq> StringObj p"
  | (string) p s where "stype a = Some pvString" "wrap a = StringObj p" "lookup h p = Some s"
  | (scalar) s where "stype a = Some (scalar_type s)" "wrap a = Bytes s"
proof (cases "stype a")
  case None
  with assms show ?thesis by (intro nil) (auto simp add: valid_def split: blob.splits)
next
  case (Some t)
  with assms show ?thesis
    by (cases "wrap a") (auto simp add: valid_def intro: string scalar split: if_splits)
qed

lemma swap_effect:
  assumes "valid h a" and "valid h b"
  shows "\<exists>a' b' h'. swap h a b = Some (a', b', h') \<and> lookup h' = lookup h
           \<and> stype a' = stype b \<and> stype b' = stype a
           \<and> view h a' = view h b \<and> view h b' = view h a
           \<and> owns a' = owns b \<and> owns b' = owns a
           \<and> valid h a' \<and> valid h b'"
  using assms(1)
proof (cases rule: valid_cases)
  case nil
  note a = this
  from assms(2) show ?thesis
  proof (cases rule: valid_cases)
    case nil
    note b = this
    from a b have "swap h a b = Some (\<lparr>stype = None, wrap = wrap a\<rparr>, \<lparr>stype = None, wrap = wrap b\<rparr>, h)"
      by (intro swap_nil_nil)
    with a b show ?thesis
      by (simp add: view_def owns_def valid_def split: blob.splits)
  next
    case (string p s)
    note b = this
    from a b have "swap h a b = Some (\<lparr>stype = Some pvString, wrap = StringObj p\<rparr>,
            \<lparr>stype = None, wrap = Indeterminate\<rparr>, h @ [None])"
      by (intro swap_nil_string)
    with a b show ?thesis
      by (simp add: view_def owns_def valid_def lookup_released)
  next
    case (scalar s)
    note b = this
    from a b have "swap h a b = Some (\<lparr>stype = Some (scalar_type s), wrap = wrap b\<rparr>,
            \<lparr>stype = None, wrap = wrap b\<rparr>, h)"
      by (intro swap_nil_scalar)
    with a b show ?thesis
      by (simp add: view_def owns_def valid_def scalar_type_not_string)
  qed
next
  case (string p s)
  note a = this
  from assms(2) show ?thesis
  proof (cases rule: valid_cases)
    case nil
    note b = this
    from a b have "swap h a b = Some (\<lparr>stype = None, wrap = Indeterminate\<rparr>,
            \<lparr>stype = Some pvString, wrap = StringObj p\<rparr>, h @ [None])"
      by (intro swap_string_nil)
    with a b show ?thesis
      by (simp add: view_def owns_def valid_def lookup_released)
  next
    case (string q t)
    note b = this
    from a b have "swap h a b = Some (\<lparr>stype = Some pvString, wrap = StringObj q\<rparr>,
            \<lparr>stype = Some pvString, wrap = StringObj p\<rparr>, h)"
      by (intro swap_string_string)
    with a b show ?thesis
      by (simp add: view_def owns_def valid_def)
  next
    case (scalar t)
    note b = this
    from a b have "swap h a b = Some (\<lparr>stype = Some (scalar_type t), wrap = Bytes t\<rparr>,
            \<lparr>stype = Some pvString, wrap = StringObj p\<rparr>, h @ [None, None])"
      by (intro swap_string_scalar)
    with a b show ?thesis
      by (simp add: view_def owns_def valid_def lookup_released2 scalar_type_not_string)
  qed
next
  case (scalar s)
  note a = this
  from assms(2) show ?thesis
  proof (cases rule: valid_cases)
    case nil
    note b = this
    from a b have "swap h a b = Some (\<lparr>stype = None, wrap = wrap a\<rparr>,
            \<lparr>stype = Some (scalar_type s), wrap = wrap a\<rparr>, h)"
      by (intro swap_scalar_nil)
    with a b show ?thesis
      by (simp add: view_def owns_def valid_def scalar_type_not_string)
  next
    case (string q t)
    note b = this
    from a b have "swap h a b = Some (\<lparr>stype = Some pvString, wrap = StringObj q\<rparr>,
            \<lparr>stype = Some (scalar_type s), wrap = Bytes s\<rparr>, h @ [None, None])"
      by (intro swap_scalar_string)
    with a b show ?thesis
      by (simp add: view_def owns_def valid_def lookup_released2 scalar_type_not_string)
  next
    case (scalar t)
    note b = this
    from a b have "swap h a b = Some (\<lparr>stype = Some (scalar_type t), wrap = wrap b\<rparr>,
            \<lparr>stype = Some (scalar_type s), wrap = wrap a\<rparr>, h)"
      by (intro swap_scalar_scalar)
    with a b show ?thesis
      by (simp add: view_def owns_def valid_def scalar_type_not_string)
  qed
qed

lemma view_frame:
  assumes "\<And>p. p \<in> owns a \<Longrightarrow> lookup h' p = lookup h p"
  shows "view h' a = view h a"
proof (cases "stype a = Some pvString")
  case True
  with assms show ?thesis
    by (cases "wrap a") (simp_all add: view_def owns_def)
next
  case False
  then show ?thesis
    by (cases "wrap a"; cases "stype a") (simp_all add: view_def)
qed

lemma valid_iff_view: "valid h a \<longleftrightarrow>
   (case stype a of None \<Rightarrow> (case wrap a of StringObj _ \<Rightarrow> False | _ \<Rightarrow> True)
    | Some t \<Rightarrow> view h a \<noteq> None)"
  by (simp add: valid_def view_def split: option.splits)

lemma valid_frame:
  assumes "\<And>p. p \<in> owns a \<Longrightarrow> lookup h' p = lookup h p"
  shows "valid h' a = valid h a"
  using view_frame [of a h' h, OF assms] by (simp add: valid_iff_view split: option.splits)

lemma owns_live: "valid h a \<Longrightarrow> owns a \<subseteq> live h"
  by (erule valid_cases) (simp_all add: owns_def live_iff scalar_type_not_string)

section \<open>Effect of the constructors, the destructor and assignment\<close>

lemma dtor_effect:
  assumes "valid h a"
  shows "\<exists>h'. dtor h a = Some h' \<and> (\<forall>q. lookup h' q = (if q \<in> owns a then None else lookup h q))"
  using assms
proof (cases rule: valid_cases)
  case nil
  then show ?thesis by (simp add: dtor_def owns_def)
next
  case (string p s)
  moreover from string have "p < length h" by (simp add: lookup_Some_less)
  ultimately show ?thesis
    by (simp add: dtor_def owns_def string_dtor_def lookup_update)
next
  case (scalar s)
  then show ?thesis by (simp add: dtor_def owns_def scalar_type_not_string)
qed

lemma copy_ctor_effect:
  assumes "valid h a"
  shows "\<exists>c h'. copy_ctor h a = Some (c, h') \<and> stype c = stype a
           \<and> view h' c = view h a \<and> valid h' c
           \<and> owns c \<inter> live h = {}
           \<and> (\<forall>q. q \<notin> owns c \<longrightarrow> lookup h' q = lookup h q)"
  using assms
proof (cases rule: valid_cases)
  case nil
  then show ?thesis
    by (simp add: copy_ctor_def view_def valid_def owns_def split: blob.splits)
next
  case (string p s)
  then show ?thesis
    by (simp add: copy_ctor_def string_copy_ctor_def string_ctor_def view_def valid_def
        owns_def lookup_append_cell live_iff lookup_fresh)
next
  case (scalar s)
  then show ?thesis
    by (simp add: copy_ctor_def view_def valid_def owns_def scalar_type_not_string)
qed

lemma ctor_effect:
  "\<exists>c h'. AnyScalar_ctor h v = (c, h') \<and> stype c = Some (value_type v)
           \<and> view h' c = Some v \<and> valid h' c
           \<and> owns c \<inter> live h = {}
           \<and> (\<forall>q. q \<notin> owns c \<longrightarrow> lookup h' q = lookup h q)"
proof (cases v)
  case (Num s)
  then show ?thesis
    by (simp add: AnyScalar_ctor_def view_def valid_def owns_def scalar_type_not_string)
next
  case (Str s)
  then show ?thesis
    by (simp add: AnyScalar_ctor_def string_ctor_def view_def valid_def
        owns_def lookup_append_cell live_iff lookup_fresh)
qed

lemma replace_effect:
  assumes vtmp: "valid h1 tmp" and vthis: "valid h1 this"
    and disj: "owns tmp \<inter> owns this = {}"
  shows "\<exists>this' h3.
           do { (tmp, this, h2) \<leftarrow> swap h1 tmp this; h3 \<leftarrow> dtor h2 tmp; Some (this, h3) }
             = Some (this', h3)
           \<and> stype this' = stype tmp \<and> view h3 this' = view h1 tmp \<and> valid h3 this'
           \<and> owns this' = owns tmp
           \<and> (\<forall>q. lookup h3 q = (if q \<in> owns this then None else lookup h1 q))"
proof -
  from swap_effect [OF vtmp vthis] obtain tmp' this' h2 where
    sw: "swap h1 tmp this = Some (tmp', this', h2)" and h2: "lookup h2 = lookup h1"
    and st: "stype this' = stype tmp"
    and vw: "view h1 this' = view h1 tmp"
    and ow: "owns this' = owns tmp" "owns tmp' = owns this"
    and va: "valid h1 tmp'" "valid h1 this'"
    by (elim exE conjE) (rule that)
  from va(1) have "valid h2 tmp'" by (simp add: valid_cong_lookup [OF h2])
  from dtor_effect [OF \<open>valid h2 tmp'\<close>] obtain h3 where
    dt: "dtor h2 tmp' = Some h3"
    and h3': "\<forall>q. lookup h3 q = (if q \<in> owns tmp' then None else lookup h2 q)"
    by (elim exE conjE) (rule that)
  from h3' have h3: "lookup h3 q = (if q \<in> owns tmp' then None else lookup h2 q)" for q
    by (rule spec)
  have fr: "lookup h3 p = lookup h1 p" if "p \<in> owns this'" for p
    using disj ow h2 that by (auto simp add: h3)
  have "view h3 this' = view h1 this'" by (rule view_frame) (rule fr)
  moreover have "valid h3 this' = valid h1 this'" by (rule valid_frame) (rule fr)
  ultimately have "stype this' = stype tmp \<and> view h3 this' = view h1 tmp \<and> valid h3 this'
           \<and> owns this' = owns tmp
           \<and> (\<forall>q. lookup h3 q = (if q \<in> owns this then None else lookup h1 q))"
    using st vw ow va(2) h2 by (simp add: h3)
  moreover have "do { (tmp, this, h2) \<leftarrow> swap h1 tmp this; h3 \<leftarrow> dtor h2 tmp; Some (this, h3) }
             = Some (this', h3)"
    by (simp add: sw dt)
  ultimately have "do { (tmp, this, h2) \<leftarrow> swap h1 tmp this; h3 \<leftarrow> dtor h2 tmp; Some (this, h3) }
             = Some (this', h3)
           \<and> stype this' = stype tmp \<and> view h3 this' = view h1 tmp \<and> valid h3 this'
           \<and> owns this' = owns tmp
           \<and> (\<forall>q. lookup h3 q = (if q \<in> owns this then None else lookup h1 q))"
    by (rule conjI [rotated])
  then show ?thesis by (intro exI)
qed

lemma install_effect:
  assumes vthis: "valid h this"
    and vtmp: "valid h1 tmp"
    and fresh: "owns tmp \<inter> live h = {}"
    and old: "\<forall>q. q \<notin> owns tmp \<longrightarrow> lookup h1 q = lookup h q"
  shows "\<exists>this' h'.
           do { (tmp, this, h2) \<leftarrow> swap h1 tmp this; h3 \<leftarrow> dtor h2 tmp; Some (this, h3) }
             = Some (this', h')
           \<and> stype this' = stype tmp \<and> view h' this' = view h1 tmp \<and> valid h' this'
           \<and> owns this' = owns tmp
           \<and> live h' = (live h - owns this) \<union> owns this'
           \<and> (\<forall>q. q \<notin> owns this \<union> owns this' \<longrightarrow> lookup h' q = lookup h q)"
proof -
  from owns_live [OF vthis] fresh have disj: "owns tmp \<inter> owns this = {}" by blast
  have "valid h1 this = valid h this"
  proof (rule valid_frame)
    fix p assume "p \<in> owns this"
    with disj have "p \<notin> owns tmp" by blast
    with old show "lookup h1 p = lookup h p" by simp
  qed
  with vthis have vthis1: "valid h1 this" by simp
  from replace_effect [OF vtmp vthis1 disj] obtain this' h3 where
    run: "do { (tmp, this, h2) \<leftarrow> swap h1 tmp this; h3 \<leftarrow> dtor h2 tmp; Some (this, h3) }
             = Some (this', h3)"
    and st: "stype this' = stype tmp" and vw: "view h3 this' = view h1 tmp"
    and va: "valid h3 this'" and ow: "owns this' = owns tmp"
    and h3': "\<forall>q. lookup h3 q = (if q \<in> owns this then None else lookup h1 q)"
    by (elim exE conjE) (rule that)
  from h3' have h3: "lookup h3 q = (if q \<in> owns this then None else lookup h1 q)" for q
    by (rule spec)
  from owns_live [OF vtmp] have tmp_live: "q \<in> owns tmp \<Longrightarrow> lookup h1 q \<noteq> None" for q
    by (auto simp add: live_iff)
  have "q \<in> live h3 \<longleftrightarrow> q \<in> (live h - owns this) \<union> owns this'" for q
  proof (cases "q \<in> owns tmp")
    case True
    with disj tmp_live [OF True] show ?thesis by (auto simp add: live_iff h3 ow)
  next
    case False
    with old have "lookup h1 q = lookup h q" by simp
    with False show ?thesis by (simp add: live_iff h3 ow)
  qed
  then have lv: "live h3 = (live h - owns this) \<union> owns this'" by blast
  have "\<forall>q. q \<notin> owns this \<union> owns this' \<longrightarrow> lookup h3 q = lookup h q"
    using old by (simp add: h3 ow)
  with run st vw va ow lv
  have "do { (tmp, this, h2) \<leftarrow> swap h1 tmp this; h3 \<leftarrow> dtor h2 tmp; Some (this, h3) }
             = Some (this', h3)
           \<and> stype this' = stype tmp \<and> view h3 this' = view h1 tmp \<and> valid h3 this'
           \<and> owns this' = owns tmp
           \<and> live h3 = (live h - owns this) \<union> owns this'
           \<and> (\<forall>q. q \<notin> owns this \<union> owns this' \<longrightarrow> lookup h3 q = lookup h q)"
    by (intro conjI)
  then show ?thesis by (intro exI)
qed

lemma assign_effect:
  assumes vthis: "valid h this" and vother: "valid h other"
  shows "\<exists>this' h'. assign h this other = Some (this', h')
           \<and> stype this' = stype other \<and> view h' this' = view h other \<and> valid h' this'
           \<and> owns this' \<inter> live h = {}
           \<and> live h' = (live h - owns this) \<union> owns this'
           \<and> (\<forall>q. q \<notin> owns this \<union> owns this' \<longrightarrow> lookup h' q = lookup h q)"
proof -
  from copy_ctor_effect [OF vother] obtain tmp h1 where
    cp: "copy_ctor h other = Some (tmp, h1)" and st: "stype tmp = stype other"
    and vw: "view h1 tmp = view h other" and vtmp: "valid h1 tmp"
    and fresh: "owns tmp \<inter> live h = {}"
    and old: "\<forall>q. q \<notin> owns tmp \<longrightarrow> lookup h1 q = lookup h q"
    by (elim exE conjE) (rule that)
  from install_effect [OF vthis vtmp fresh old] obtain this' h' where
    run: "do { (tmp, this, h2) \<leftarrow> swap h1 tmp this; h3 \<leftarrow> dtor h2 tmp; Some (this, h3) }
             = Some (this', h')"
    and *: "stype this' = stype tmp" "view h' this' = view h1 tmp" "valid h' this'"
      "owns this' = owns tmp" "live h' = (live h - owns this) \<union> owns this'"
      "\<forall>q. q \<notin> owns this \<union> owns this' \<longrightarrow> lookup h' q = lookup h q"
    by (elim exE conjE) (rule that)
  have "assign h this other = Some (this', h')"
    by (simp add: assign_def cp run)
  with * st vw fresh
  have "assign h this other = Some (this', h')
           \<and> stype this' = stype other \<and> view h' this' = view h other \<and> valid h' this'
           \<and> owns this' \<inter> live h = {}
           \<and> live h' = (live h - owns this) \<union> owns this'
           \<and> (\<forall>q. q \<notin> owns this \<union> owns this' \<longrightarrow> lookup h' q = lookup h q)"
    by simp
  then show ?thesis by (intro exI)
qed

lemma assign_value_effect:
  assumes vthis: "valid h this"
  shows "\<exists>this' h'. assign_value h this v = Some (this', h')
           \<and> stype this' = Some (value_type v) \<and> view h' this' = Some v \<and> valid h' this'
           \<and> owns this' \<inter> live h = {}
           \<and> live h' = (live h - owns this) \<union> owns this'
           \<and> (\<forall>q. q \<notin> owns this \<union> owns this' \<longrightarrow> lookup h' q = lookup h q)"
proof -
  from ctor_effect [of h v] obtain tmp h1 where
    cp: "AnyScalar_ctor h v = (tmp, h1)" and st: "stype tmp = Some (value_type v)"
    and vw: "view h1 tmp = Some v" and vtmp: "valid h1 tmp"
    and fresh: "owns tmp \<inter> live h = {}"
    and old: "\<forall>q. q \<notin> owns tmp \<longrightarrow> lookup h1 q = lookup h q"
    by (elim exE conjE) (rule that)
  from install_effect [OF vthis vtmp fresh old] obtain this' h' where
    run: "do { (tmp, this, h2) \<leftarrow> swap h1 tmp this; h3 \<leftarrow> dtor h2 tmp; Some (this, h3) }
             = Some (this', h')"
    and *: "stype this' = stype tmp" "view h' this' = view h1 tmp" "valid h' this'"
      "owns this' = owns tmp" "live h' = (live h - owns this) \<union> owns this'"
      "\<forall>q. q \<notin> owns this \<union> owns this' \<longrightarrow> lookup h' q = lookup h q"
    by (elim exE conjE) (rule that)
  have "assign_value h this v = Some (this', h')"
    by (simp add: assign_value_def cp run)
  with * st vw fresh
  have "assign_value h this v = Some (this', h')
           \<and> stype this' = Some (value_type v) \<and> view h' this' = Some v \<and> valid h' this'
           \<and> owns this' \<inter> live h = {}
           \<and> live h' = (live h - owns this) \<union> owns this'
           \<and> (\<forall>q. q \<notin> owns this \<union> owns this' \<longrightarrow> lookup h' q = lookup h q)"
    by simp
  then show ?thesis by (intro exI)
qed

section \<open>Timestamp tag transform: results\<close>

lemma and_not_mask_unshifted:
  "(w::32 word) AND NOT (mask k) = push_bit k (drop_bit k w)"
  by (rule bit_eqI) (auto simp add: bit_simps)

lemma take_bit_push_bit_same:
  "take_bit k (push_bit k (w::32 word)) = 0"
  by (rule bit_eqI) (auto simp add: bit_simps)

text \<open>
  C8. For a bit width \<open>k \<le> 32\<close> the transform succeeds; the tag receives the low \<open>k\<close>
  bits of the nanoseconds at their place, the nanoseconds keep their high bits at their
  place and have their low \<open>k\<close> bits zero, and the two parts add up to the original
  value. With nanoseconds \<open>0x12345678\<close> and \<open>k = 20\<close> the tag is \<open>0x45678\<close> and the
  nanoseconds are \<open>0x12300000\<close>; with \<open>k = 0\<close> the time stamp is returned as it is.
\<close>

theorem nsec_lsb_split:
  assumes "k \<le> 32"
  shows "(\<exists>ts'. nsec_lsb k ts = Inr ts'
           \<and> userTag ts' = (if k = 0 then userTag ts else take_bit k (nanoseconds ts))
           \<and> nanoseconds ts' = push_bit k (drop_bit k (nanoseconds ts))
           \<and> take_bit k (nanoseconds ts') = 0
           \<and> nanoseconds ts' + take_bit k (nanoseconds ts) = nanoseconds ts
           \<and> secondsPastEpoch ts' = secondsPastEpoch ts)
       \<and> nsec_lsb 20 \<lparr>secondsPastEpoch = s, nanoseconds = 0x12345678, userTag = u\<rparr>
           = Inr \<lparr>secondsPastEpoch = s, nanoseconds = 0x12300000, userTag = 0x45678\<rparr>
       \<and> nsec_lsb 0 ts = Inr ts"
proof (intro conjI)
  show "\<exists>ts'. nsec_lsb k ts = Inr ts'
           \<and> userTag ts' = (if k = 0 then userTag ts else take_bit k (nanoseconds ts))
           \<and> nanoseconds ts' = push_bit k (drop_bit k (nanoseconds ts))
           \<and> take_bit k (nanoseconds ts') = 0
           \<and> nanoseconds ts' + take_bit k (nanoseconds ts) = nanoseconds ts
           \<and> secondsPastEpoch ts' = secondsPastEpoch ts"
  proof (cases "k = 0")
    case True
    then show ?thesis by (simp add: nsec_lsb_def)
  next
    case False
    with assms show ?thesis
      by (simp add: nsec_lsb_def and_not_mask_unshifted take_bit_eq_mask [symmetric]
          bits_ident take_bit_push_bit_same)
  qed
  show "nsec_lsb 20 \<lparr>secondsPastEpoch = s, nanoseconds = 0x12345678, userTag = u\<rparr>
           = Inr \<lparr>secondsPastEpoch = s, nanoseconds = 0x12300000, userTag = 0x45678\<rparr>"
    by (simp add: nsec_lsb_def mask_eq_exp_minus_1)
  show "nsec_lsb 0 ts = Inr ts"
    by (simp add: nsec_lsb_def)
qed

theorem nsec_lsb_split_witness:
  "(20::nat) \<le> 32 \<and>
   (\<exists>ts'. nsec_lsb 20 \<lparr>secondsPastEpoch = 7, nanoseconds = 0x12345678, userTag = 0\<rparr> = Inr ts'
      \<and> userTag ts' = take_bit 20 (0x12345678 :: 32 word)
      \<and> nanoseconds ts' = push_bit 20 (drop_bit 20 (0x12345678 :: 32 word)))"
proof -
  have k: "(20::nat) \<le> 32" by simp
  from nsec_lsb_split [OF k, of "\<lparr>secondsPastEpoch = 7, nanoseconds = 0x12345678, userTag = 0\<rparr>"]
  show ?thesis by auto
qed

section \<open>Swap and assignment\<close>

text \<open>
  C2. For any two well-formed objects, whatever their tags (nil, string or any other), swap
  is defined and leaves two well-formed objects, each with the tag and the value the other
  had; each object now owns the buffer the other owned, and the free store has the same
  live buffers with the same contents as before. Copy assignment (a copy, a swap and the
  destruction of the temporary) is defined too: the target is well-formed with the tag and
  value of the source, the buffer it owned before is released, the only new buffer is the
  one it owns now, and a source that shares no buffer with the target is left as it was.
\<close>

theorem swap_and_assign_total:
  assumes va: "valid h a" and vb: "valid h b"
  shows "(\<exists>a' b' h'. swap h a b = Some (a', b', h')
            \<and> valid h' a' \<and> valid h' b'
            \<and> stype a' = stype b \<and> stype b' = stype a
            \<and> view h' a' = view h b \<and> view h' b' = view h a
            \<and> owns a' = owns b \<and> owns b' = owns a
            \<and> live h' = live h \<and> lookup h' = lookup h)
       \<and> (\<exists>a' h'. assign h a b = Some (a', h')
            \<and> valid h' a' \<and> stype a' = stype b \<and> view h' a' = view h b
            \<and> owns a' \<inter> live h = {}
            \<and> live h' = (live h - owns a) \<union> owns a'
            \<and> (owns a \<inter> owns b = {} \<longrightarrow> valid h' b \<and> view h' b = view h b))"
proof (rule conjI)
  from swap_effect [OF va vb] obtain a' b' h' where
    sw: "swap h a b = Some (a', b', h')" and h': "lookup h' = lookup h"
    and *: "stype a' = stype b" "stype b' = stype a"
      "view h a' = view h b" "view h b' = view h a"
      "owns a' = owns b" "owns b' = owns a" "valid h a'" "valid h b'"
    by (elim exE conjE) (rule that)
  from sw * h'
  have "swap h a b = Some (a', b', h')
            \<and> valid h' a' \<and> valid h' b'
            \<and> stype a' = stype b \<and> stype b' = stype a
            \<and> view h' a' = view h b \<and> view h' b' = view h a
            \<and> owns a' = owns b \<and> owns b' = owns a
            \<and> live h' = live h \<and> lookup h' = lookup h"
    by (simp add: valid_cong_lookup [OF h'] view_cong_lookup [OF h'] live_cong_lookup [OF h'])
  then show "\<exists>a' b' h'. swap h a b = Some (a', b', h')
            \<and> valid h' a' \<and> valid h' b'
            \<and> stype a' = stype b \<and> stype b' = stype a
            \<and> view h' a' = view h b \<and> view h' b' = view h a
            \<and> owns a' = owns b \<and> owns b' = owns a
            \<and> live h' = live h \<and> lookup h' = lookup h"
    by (intro exI)
next
  from assign_effect [OF va vb] obtain a' h' where
    asg: "assign h a b = Some (a', h')"
    and *: "stype a' = stype b" "view h' a' = view h b" "valid h' a'"
      "owns a' \<inter> live h = {}" "live h' = (live h - owns a) \<union> owns a'"
    and old: "\<forall>q. q \<notin> owns a \<union> owns a' \<longrightarrow> lookup h' q = lookup h q"
    by (elim exE conjE) (rule that)
  have fr: "lookup h' p = lookup h p" if "owns a \<inter> owns b = {}" "p \<in> owns b" for p
  proof -
    from owns_live [OF vb] that(2) have "p \<in> live h" by blast
    with *(4) have "p \<notin> owns a'" by blast
    moreover from that have "p \<notin> owns a" by blast
    ultimately show ?thesis using old by simp
  qed
  have "valid h' b \<and> view h' b = view h b" if d: "owns a \<inter> owns b = {}"
  proof -
    have "valid h' b = valid h b" by (rule valid_frame) (rule fr [OF d])
    moreover have "view h' b = view h b" by (rule view_frame) (rule fr [OF d])
    ultimately show ?thesis using vb by simp
  qed
  with asg *
  have "assign h a b = Some (a', h')
            \<and> valid h' a' \<and> stype a' = stype b \<and> view h' a' = view h b
            \<and> owns a' \<inter> live h = {}
            \<and> live h' = (live h - owns a) \<union> owns a'
            \<and> (owns a \<inter> owns b = {} \<longrightarrow> valid h' b \<and> view h' b = view h b)"
    by simp
  then show "\<exists>a' h'. assign h a b = Some (a', h')
            \<and> valid h' a' \<and> stype a' = stype b \<and> view h' a' = view h b
            \<and> owns a' \<inter> live h = {}
            \<and> live h' = (live h - owns a) \<union> owns a'
            \<and> (owns a \<inter> owns b = {} \<longrightarrow> valid h' b \<and> view h' b = view h b)"
    by (intro exI)
qed

theorem swap_and_assign_total_witness:
  "valid [Some ''abc''] \<lparr>stype = Some pvString, wrap = StringObj 0\<rparr>
   \<and> valid [Some ''abc''] \<lparr>stype = Some pvInt, wrap = Bytes (VInt 5)\<rparr>
   \<and> (\<exists>a' b' h'.
         swap [Some ''abc''] \<lparr>stype = Some pvString, wrap = StringObj 0\<rparr>
           \<lparr>stype = Some pvInt, wrap = Bytes (VInt 5)\<rparr> = Some (a', b', h')
         \<and> view h' a' = Some (Num (VInt 5)) \<and> view h' b' = Some (Str ''abc'')
         \<and> owns b' = {0} \<and> live h' = {0})
   \<and> (\<exists>a' h'.
         assign [Some ''abc''] \<lparr>stype = Some pvString, wrap = StringObj 0\<rparr>
           \<lparr>stype = Some pvInt, wrap = Bytes (VInt 5)\<rparr> = Some (a', h')
         \<and> view h' a' = Some (Num (VInt 5)) \<and> live h' = {}
         \<and> valid h' \<lparr>stype = Some pvInt, wrap = Bytes (VInt 5)\<rparr>)"
proof -
  let ?h = "[Some ''abc'']"
  let ?a = "\<lparr>stype = Some pvString, wrap = StringObj 0\<rparr>"
  let ?b = "\<lparr>stype = Some pvInt, wrap = Bytes (VInt 5)\<rparr>"
  have va: "valid ?h ?a"
    by (simp add: valid_def lookup_def)
  have vb: "valid ?h ?b"
    by (simp add: valid_def)
  have lv: "live ?h = {0}"
    by (simp add: live_def)
  have vw: "view ?h ?a = Some (Str ''abc'')" "view ?h ?b = Some (Num (VInt 5))"
    by (simp_all add: view_def lookup_def)
  have ow: "owns ?a = {0}" "owns ?b = {}"
    by (simp_all add: owns_def)
  have st: "stype ?b = Some pvInt"
    by simp
  have ne: "owns x = {}" if "stype x = Some pvInt" for x
    using that by (simp add: owns_def)
  from swap_and_assign_total [OF va vb] va vb show ?thesis
    unfolding vw ow lv st by (auto simp add: ne)
qed

text \<open>
  C3. For any two well-formed objects, whatever their tags, two swaps in a row are defined
  and give each object the tag and the value it had at the start; each owns the buffer it
  owned, and the free store has the same live buffers with the same contents.
\<close>

theorem swap_twice_restores:
  assumes va: "valid h a" and vb: "valid h b"
  shows "\<exists>a1 b1 h1 a2 b2 h2.
           swap h a b = Some (a1, b1, h1) \<and> swap h1 a1 b1 = Some (a2, b2, h2)
           \<and> stype a2 = stype a \<and> stype b2 = stype b
           \<and> view h2 a2 = view h a \<and> view h2 b2 = view h b
           \<and> valid h2 a2 \<and> valid h2 b2
           \<and> owns a2 = owns a \<and> owns b2 = owns b
           \<and> lookup h2 = lookup h"
proof -
  from swap_effect [OF va vb] obtain a1 b1 h1 where
    sw1: "swap h a b = Some (a1, b1, h1)" and h1: "lookup h1 = lookup h"
    and s1: "stype a1 = stype b" "stype b1 = stype a"
    and v1: "view h a1 = view h b" "view h b1 = view h a"
    and o1: "owns a1 = owns b" "owns b1 = owns a"
    and w1: "valid h a1" "valid h b1"
    by (elim exE conjE) (rule that)
  from w1 have w1': "valid h1 a1" "valid h1 b1"
    by (simp_all add: valid_cong_lookup [OF h1])
  from swap_effect [OF w1'] obtain a2 b2 h2 where
    sw2: "swap h1 a1 b1 = Some (a2, b2, h2)" and h2: "lookup h2 = lookup h1"
    and s2: "stype a2 = stype b1" "stype b2 = stype a1"
    and v2: "view h1 a2 = view h1 b1" "view h1 b2 = view h1 a1"
    and o2: "owns a2 = owns b1" "owns b2 = owns a1"
    and w2: "valid h1 a2" "valid h1 b2"
    by (elim exE conjE) (rule that)
  from h1 h2 have h: "lookup h2 = lookup h" by simp
  have "view h2 a2 = view h a"
    using v2(1) v1(2) by (simp add: view_cong_lookup [OF h2] view_cong_lookup [OF h1])
  moreover have "view h2 b2 = view h b"
    using v2(2) v1(1) by (simp add: view_cong_lookup [OF h2] view_cong_lookup [OF h1])
  moreover have "valid h2 a2" "valid h2 b2"
    using w2 by (simp_all add: valid_cong_lookup [OF h2])
  ultimately
  have "swap h a b = Some (a1, b1, h1) \<and> swap h1 a1 b1 = Some (a2, b2, h2)
           \<and> stype a2 = stype a \<and> stype b2 = stype b
           \<and> view h2 a2 = view h a \<and> view h2 b2 = view h b
           \<and> valid h2 a2 \<and> valid h2 b2
           \<and> owns a2 = owns a \<and> owns b2 = owns b
           \<and> lookup h2 = lookup h"
    using sw1 sw2 s1 s2 o1 o2 h by simp
  then show ?thesis by (intro exI)
qed

theorem swap_twice_restores_witness:
  "valid [Some ''abc''] \<lparr>stype = None, wrap = Indeterminate\<rparr>
   \<and> valid [Some ''abc''] \<lparr>stype = Some pvString, wrap = StringObj 0\<rparr>
   \<and> (\<exists>a1 b1 h1 a2 b2 h2.
         swap [Some ''abc''] \<lparr>stype = None, wrap = Indeterminate\<rparr>
           \<lparr>stype = Some pvString, wrap = StringObj 0\<rparr> = Some (a1, b1, h1)
         \<and> swap h1 a1 b1 = Some (a2, b2, h2)
         \<and> stype a2 = None \<and> stype b2 = Some pvString
         \<and> view h2 a2 = None \<and> view h2 b2 = Some (Str ''abc''))"
proof -
  let ?h = "[Some ''abc'']"
  let ?a = "\<lparr>stype = None, wrap = Indeterminate\<rparr>"
  let ?b = "\<lparr>stype = Some pvString, wrap = StringObj 0\<rparr>"
  have va: "valid ?h ?a"
    by (simp add: valid_def)
  have vb: "valid ?h ?b"
    by (simp add: valid_def lookup_def)
  have vw: "view ?h ?a = None" "view ?h ?b = Some (Str ''abc'')"
    by (simp_all add: view_def lookup_def)
  have st: "stype ?a = None" "stype ?b = Some pvString"
    by simp_all
  from swap_twice_restores [OF va vb] va vb show ?thesis
    unfolding vw st by blast
qed

section \<open>Emptiness\<close>

text \<open>
  C7. An object converts to false exactly when it is nil: the default-constructed object
  does, and an object constructed from any value does not, a zero included (the integer 0,
  the boolean false, the empty string).
\<close>

theorem operator_bool_iff_not_nil:
  "(operator_bool a \<longleftrightarrow> stype a \<noteq> None)
   \<and> (\<not> operator_bool a \<longleftrightarrow> empty a)
   \<and> \<not> operator_bool AnyScalar_default
   \<and> operator_bool (fst (AnyScalar_ctor h v))
   \<and> operator_bool (fst (AnyScalar_ctor h (Num (VInt 0))))
   \<and> operator_bool (fst (AnyScalar_ctor h (Num (VBoolean False))))
   \<and> operator_bool (fst (AnyScalar_ctor h (Str [])))"
  by (cases v)
    (simp_all add: operator_bool_def empty_def AnyScalar_default_def AnyScalar_ctor_def
      string_ctor_def)

section \<open>Typed access\<close>

lemma storage_type_has_tag:
  "ScalarTypeID (any_storage_type (strip_const T)) \<noteq> None"
  by (cases T; cases "strip_const T") simp_all

lemma ScalarTypeID_storage:
  "ScalarTypeID B = Some t \<Longrightarrow> any_storage_type B = B"
  by (cases B) simp_all

text \<open>
  C5. \<^verbatim>\<open>ref<T>()\<close> throws \<^verbatim>\<open>bad_cast\<close> exactly when the tag of the object differs
  from the tag of the storage type of \<^verbatim>\<open>T\<close> (\<^verbatim>\<open>T\<close> without \<^verbatim>\<open>const\<close>, the character
  pointers mapped to the string type); otherwise it returns the storage of the object as
  it is. It throws nothing else, and the mapped tag of \<^verbatim>\<open>char*\<close> and of
  \<^verbatim>\<open>const char*\<close> is the string tag, with or without a top-level \<^verbatim>\<open>const\<close>.
\<close>

theorem ref_strict:
  "(ref T a = Inl bad_cast \<longleftrightarrow> stype a \<noteq> ScalarTypeID (any_storage_type (strip_const T)))
   \<and> ref T a = (if stype a = ScalarTypeID (any_storage_type (strip_const T))
                then Inr (wrap a) else Inl bad_cast)
   \<and> ScalarTypeID (any_storage_type (strip_const (Plain char_ptr_t))) = Some pvString
   \<and> ScalarTypeID (any_storage_type (strip_const (Plain const_char_ptr_t))) = Some pvString
   \<and> ScalarTypeID (any_storage_type (strip_const (Const char_ptr_t))) = Some pvString
   \<and> ScalarTypeID (any_storage_type (strip_const (Const const_char_ptr_t))) = Some pvString
   \<and> ScalarTypeID (any_storage_type (strip_const (Const B))) =
       ScalarTypeID (any_storage_type (strip_const (Plain B)))
   \<and> ref (Plain double_t) (fst (AnyScalar_ctor h (Num (VInt 5)))) = Inl bad_cast
   \<and> ref (Plain int32_t) (fst (AnyScalar_ctor h (Num (VInt 5)))) = Inr (Bytes (VInt 5))"
  using storage_type_has_tag [of T] by (auto simp add: ref_def AnyScalar_ctor_def)




text \<open>
  C1. Let \<^verbatim>\<open>castUnsafeV\<close> copy the source when the two tags are equal. For a value \<open>v\<close>
  of a scalar type \<^verbatim>\<open>T\<close>, the object constructed from \<open>v\<close> has the tag of \<^verbatim>\<open>T\<close>,
  \<^verbatim>\<open>as<T>()\<close> returns \<open>v\<close>, \<^verbatim>\<open>ref<T>()\<close> returns the storage of the object, and after
  a value \<open>w\<close> of type \<^verbatim>\<open>T\<close> is assigned through that reference, \<^verbatim>\<open>as<T>()\<close> on the
  same object returns \<open>w\<close>.
\<close>

theorem construct_as_ref_roundtrip:
  assumes copy: "\<And>t h b u. deref h t b = Some u \<Longrightarrow> castUnsafeV t t h b = Inr u"
    and T: "ScalarTypeID (strip_const T) = Some (value_type v)"
    and W: "value_type w = value_type v"
  shows "\<exists>a h1 b' h2. AnyScalar_ctor h v = (a, h1)
           \<and> stype a = Some (value_type v)
           \<and> as castUnsafeV h1 T a = Inr v
           \<and> ref T a = Inr (wrap a)
           \<and> store h1 (wrap a) w = Some (b', h2)
           \<and> as castUnsafeV h2 T (a\<lparr>wrap := b'\<rparr>) = Inr w"
proof -
  from T have TT: "ScalarTypeID (any_storage_type (strip_const T)) = Some (value_type v)"
    by (simp add: ScalarTypeID_storage)
  show ?thesis
  proof (cases v)
    case (Num s)
    with W obtain s' where w: "w = Num s'" and ss: "scalar_type s' = scalar_type s"
      by (cases w) (simp_all add: scalar_type_not_string [symmetric])
    have "deref h (scalar_type s) (Bytes s) = Some (Num s)" by simp
    then have c1: "castUnsafeV (scalar_type s) (scalar_type s) h (Bytes s) = Inr (Num s)"
      by (rule copy)
    have "deref h (scalar_type s) (Bytes s') = Some (Num s')" by (simp add: ss)
    then have c2: "castUnsafeV (scalar_type s) (scalar_type s) h (Bytes s') = Inr (Num s')"
      by (rule copy)
    from Num w ss T TT c1 c2 show ?thesis
      by (simp add: AnyScalar_ctor_def as_def ref_def store_def)
  next
    case (Str s)
    with W obtain s' where w: "w = Str s'"
      by (cases w) (simp_all add: scalar_type_not_string)
    have "deref (h @ [Some s]) pvString (StringObj (length h)) = Some (Str s)"
      by (simp add: lookup_append_cell)
    then have c1: "castUnsafeV pvString pvString (h @ [Some s]) (StringObj (length h)) = Inr (Str s)"
      by (rule copy)
    have "deref (h @ [Some s']) pvString (StringObj (length h)) = Some (Str s')"
      by (simp add: lookup_append_cell)
    then have c2: "castUnsafeV pvString pvString (h @ [Some s']) (StringObj (length h)) = Inr (Str s')"
      by (rule copy)
    from Str w T TT c1 c2 show ?thesis
      by (simp add: AnyScalar_ctor_def string_ctor_def as_def ref_def store_def
          string_assign_def lookup_append_cell)
  qed
qed

theorem construct_as_ref_roundtrip_witness:
  "ScalarTypeID (strip_const (Const string_t)) = Some (value_type (Str ''abc'')) \<and>
   value_type (Str ''de'') = value_type (Str ''abc'') \<and>
   (\<exists>a h1 b' h2. AnyScalar_ctor [] (Str ''abc'') = (a, h1)
       \<and> as same_type_only h1 (Const string_t) a = Inr (Str ''abc'')
       \<and> store h1 (wrap a) (Str ''de'') = Some (b', h2)
       \<and> as same_type_only h2 (Const string_t) (a\<lparr>wrap := b'\<rparr>) = Inr (Str ''de''))"
proof -
  have copy: "same_type_only t t h b = Inr u" if "deref h t b = Some u" for t h b u
    using that by (simp add: same_type_only_def)
  have T: "ScalarTypeID (strip_const (Const string_t)) = Some (value_type (Str ''abc''))"
    by simp
  have W: "value_type (Str ''de'') = value_type (Str ''abc'')"
    by simp
  from construct_as_ref_roundtrip [of same_type_only, OF copy T W, of "[]"] T W
  show ?thesis by blast
qed

section \<open>Construction and copies\<close>

lemma store_string:
  assumes "lookup h p = Some s"
  shows "store h (StringObj p) (Str s') = Some (StringObj p, h[p := Some s'])"
  using assms by (simp add: store_def string_assign_def)

text \<open>
  C6. The storage of an object is one representation. An object constructed from a value,
  and a well-formed object after a value is assigned to it, is well-formed with the tag of
  that value and holds it. The copy of a well-formed object is well-formed with the same
  tag and value, the original is unchanged, and the two own no common buffer. When the
  tag is the string tag, a string assigned through \<^verbatim>\<open>ref<std::string>()\<close> of the copy
  changes the copy and not the original, and one assigned through that of the original
  changes the original and not the copy.
\<close>

theorem copy_is_deep:
  assumes va: "valid h a"
  shows "(\<exists>a0 h0. AnyScalar_ctor h v = (a0, h0)
            \<and> valid h0 a0 \<and> stype a0 = Some (value_type v) \<and> view h0 a0 = Some v)
       \<and> (\<exists>a1 h1. assign_value h a v = Some (a1, h1)
            \<and> valid h1 a1 \<and> stype a1 = Some (value_type v) \<and> view h1 a1 = Some v)
       \<and> (\<exists>c h'. copy_ctor h a = Some (c, h')
            \<and> valid h' c \<and> valid h' a
            \<and> stype c = stype a \<and> view h' c = view h a \<and> view h' a = view h a
            \<and> owns c \<inter> owns a = {}
            \<and> (stype a = Some pvString \<longrightarrow>
                  ref (Plain string_t) c = Inr (wrap c)
                \<and> ref (Plain string_t) a = Inr (wrap a)
                \<and> (\<exists>h1. store h' (wrap c) (Str s) = Some (wrap c, h1)
                      \<and> view h1 c = Some (Str s) \<and> view h1 a = view h a)
                \<and> (\<exists>h2. store h' (wrap a) (Str s) = Some (wrap a, h2)
                      \<and> view h2 a = Some (Str s) \<and> view h2 c = view h a)))"
proof (intro conjI)
  from ctor_effect [of h v]
  show "\<exists>a0 h0. AnyScalar_ctor h v = (a0, h0)
            \<and> valid h0 a0 \<and> stype a0 = Some (value_type v) \<and> view h0 a0 = Some v"
    by blast
  from assign_value_effect [OF va, of v]
  show "\<exists>a1 h1. assign_value h a v = Some (a1, h1)
            \<and> valid h1 a1 \<and> stype a1 = Some (value_type v) \<and> view h1 a1 = Some v"
    by blast
  from va
  show "\<exists>c h'. copy_ctor h a = Some (c, h')
            \<and> valid h' c \<and> valid h' a
            \<and> stype c = stype a \<and> view h' c = view h a \<and> view h' a = view h a
            \<and> owns c \<inter> owns a = {}
            \<and> (stype a = Some pvString \<longrightarrow>
                  ref (Plain string_t) c = Inr (wrap c)
                \<and> ref (Plain string_t) a = Inr (wrap a)
                \<and> (\<exists>h1. store h' (wrap c) (Str s) = Some (wrap c, h1)
                      \<and> view h1 c = Some (Str s) \<and> view h1 a = view h a)
                \<and> (\<exists>h2. store h' (wrap a) (Str s) = Some (wrap a, h2)
                      \<and> view h2 a = Some (Str s) \<and> view h2 c = view h a))"
  proof (cases rule: valid_cases)
    case nil
    then show ?thesis
      by (simp add: copy_ctor_def valid_def view_def owns_def split: blob.splits)
  next
    case (scalar x)
    then show ?thesis
      by (simp add: copy_ctor_def valid_def view_def owns_def scalar_type_not_string)
  next
    case (string p x)
    then have p: "p < length h" by (simp add: lookup_Some_less)
    from string
    have cp: "copy_ctor h a
        = Some (\<lparr>stype = Some pvString, wrap = StringObj (length h)\<rparr>, h @ [Some x])"
      by (simp add: copy_ctor_def string_copy_ctor_def string_ctor_def)
    have lk: "lookup (h @ [Some x]) (length h) = Some x" "lookup (h @ [Some x]) p = Some x"
      using string p by (simp_all add: lookup_append_cell)
    from string p show ?thesis
      unfolding cp
      by (simp add: store_string [OF lk(1)] store_string [OF lk(2)]
          valid_def view_def owns_def ref_def lookup_append_cell lookup_update lookup_fresh)
  qed
qed

theorem copy_is_deep_witness:
  "valid [Some ''abc''] \<lparr>stype = Some pvString, wrap = StringObj 0\<rparr>
   \<and> stype \<lparr>stype = Some pvString, wrap = StringObj 0\<rparr> = Some pvString
   \<and> (\<exists>c h'. copy_ctor [Some ''abc''] \<lparr>stype = Some pvString, wrap = StringObj 0\<rparr> = Some (c, h')
         \<and> stype c = Some pvString \<and> view h' c = Some (Str ''abc'')
         \<and> (\<exists>h1. store h' (wrap c) (Str ''xyz'') = Some (wrap c, h1)
               \<and> view h1 c = Some (Str ''xyz'')
               \<and> view h1 \<lparr>stype = Some pvString, wrap = StringObj 0\<rparr> = Some (Str ''abc''))
         \<and> (\<exists>h2. store h' (StringObj 0) (Str ''xyz'') = Some (StringObj 0, h2)
               \<and> view h2 \<lparr>stype = Some pvString, wrap = StringObj 0\<rparr> = Some (Str ''xyz'')
               \<and> view h2 c = Some (Str ''abc'')))"
proof -
  let ?h = "[Some ''abc'']"
  let ?a = "\<lparr>stype = Some pvString, wrap = StringObj 0\<rparr>"
  have va: "valid ?h ?a"
    by (simp add: valid_def lookup_def)
  have st: "stype ?a = Some pvString" "wrap ?a = StringObj 0"
    by simp_all
  have vw: "view ?h ?a = Some (Str ''abc'')"
    by (simp add: view_def lookup_def)
  from copy_is_deep [OF va, of "Num (VInt 7)" "''xyz''"] va show ?thesis
    unfolding st vw by (elim conjE exE) auto
qed

section \<open>Alarm propagation: results\<close>

text \<open>
  C9. With severity propagation on, the resulting severity is the greater of the local
  and the remote one. In the mode that maximizes only on an invalid remote, the result is
  \<open>INVALID\<close> when the remote severity is \<open>INVALID\<close>, which no severity exceeds, and the
  local severity otherwise. With propagation off the local severity is kept.
\<close>

theorem propagate_sevr_modes:
  "severity_rank (propagate_sevr sevr_true local remote)
     = max (severity_rank local) (severity_rank remote)
   \<and> (propagate_sevr sevr_true local remote = local
        \<or> propagate_sevr sevr_true local remote = remote)
   \<and> propagate_sevr sevr_MSI local remote = (if remote = INVALID then INVALID else local)
   \<and> propagate_sevr sevr_false local remote = local
   \<and> severity_rank s \<le> severity_rank INVALID"
proof (intro conjI)
  show "severity_rank (propagate_sevr sevr_true local remote)
     = max (severity_rank local) (severity_rank remote)"
    by (simp add: propagate_sevr_def maximize_def max_def)
  show "propagate_sevr sevr_true local remote = local
        \<or> propagate_sevr sevr_true local remote = remote"
    by (simp add: propagate_sevr_def maximize_def)
  show "propagate_sevr sevr_MSI local remote = (if remote = INVALID then INVALID else local)"
    by (cases local) (simp_all add: propagate_sevr_def maximize_def)
  show "propagate_sevr sevr_false local remote = local"
    by (simp add: propagate_sevr_def)
  show "severity_rank s \<le> severity_rank INVALID"
    by (cases s) simp_all
qed

section \<open>Move construction\<close>

lemma move_ctor_string:
  "stype other = Some pvString \<Longrightarrow> move_ctor h other = None"
  by (simp add: move_ctor_def string_move_assign_def)

lemma move_ctor_other:
  "stype other \<noteq> Some pvString \<Longrightarrow>
   move_ctor h other
     = Some (\<lparr>stype = stype other, wrap = wrap other\<rparr>, \<lparr>stype = None, wrap = wrap other\<rparr>, h)"
  by (simp add: move_ctor_def)

text \<open>
  C10. The object constructed from the string \<^verbatim>\<open>"abc"\<close> is well-formed, and move
  construction from it has no defined result: the move assignment is applied to the
  storage of the new object, where no string has been constructed (the copy constructor
  and swap construct one there first).
\<close>

theorem move_ctor_string_undefined:
  "(case AnyScalar_ctor [] (Str ''abc'') of
      (a, h) \<Rightarrow> valid h a \<and> view h a = Some (Str ''abc'') \<and> move_ctor h a = None)"
  by (simp add: AnyScalar_ctor_def string_ctor_def valid_def view_def lookup_def
      move_ctor_def string_move_assign_def)

end
